theory Spec2Isabelle
  imports Main "HOL-Library.Word"
begin

section \<open>JavaScript strings\<close>

text \<open>
  A JavaScript string is a sequence of UTF-16 code units. The regular expressions of the
  program carry no \<open>u\<close> flag, and \<open>includes\<close>, \<open>split\<close> and \<open>trim\<close> work on code units,
  so a code unit is the character of the model.
\<close>

type_synonym jschar = "16 word"
type_synonym jsstring = "jschar list"

definition js :: "string \<Rightarrow> jsstring" where
  "js s = map of_char s"

text \<open>ECMAScript \<open>LineTerminator\<close>: LF, CR, LS (U+2028), PS (U+2029).\<close>

definition isLineTerminator :: "jschar \<Rightarrow> bool" where
  "isLineTerminator c = (c = 0x000A \<or> c = 0x000D \<or> c = 0x2028 \<or> c = 0x2029)"

text \<open>
  The class \<open>\s\<close>, which is also what \<open>String.prototype.trim\<close> strips: ECMAScript
  \<open>WhiteSpace\<close> (TAB, VT, FF, SP, NBSP, ZWNBSP and the space separators of Unicode)
  together with \<open>LineTerminator\<close>.
\<close>

definition isSpace :: "jschar \<Rightarrow> bool" where
  "isSpace c = (c = 0x0009 \<or> c = 0x000B \<or> c = 0x000C \<or> c = 0x0020 \<or> c = 0x00A0
     \<or> c = 0x1680 \<or> (0x2000 \<le> c \<and> c \<le> 0x200A) \<or> c = 0x202F \<or> c = 0x205F
     \<or> c = 0x3000 \<or> c = 0xFEFF \<or> isLineTerminator c)"

definition trim :: "jsstring \<Rightarrow> jsstring" where
  "trim s = rev (dropWhile isSpace (rev (dropWhile isSpace s)))"

text \<open>\<open>s.split("\n")\<close>: the pieces between the LF code units; never an empty array.\<close>

fun split_nl :: "jsstring \<Rightarrow> jsstring list" where
  "split_nl [] = [[]]"
| "split_nl (c # cs) =
     (if c = 0x000A then [] # split_nl cs
      else (case split_nl cs of [] \<Rightarrow> [[c]] | l # ls \<Rightarrow> (c # l) # ls))"

text \<open>\<open>s.includes(pat)\<close>: \<open>pat\<close> occurs in \<open>s\<close> as a run of consecutive code units.\<close>

fun js_includes :: "jsstring \<Rightarrow> jsstring \<Rightarrow> bool" where
  "js_includes [] pat = (pat = [])"
| "js_includes (c # cs) pat = (take (length pat) (c # cs) = pat \<or> js_includes cs pat)"

text \<open>\<open>xs.slice(start, fin)\<close> for indices that are not negative.\<close>

definition slice :: "nat \<Rightarrow> nat \<Rightarrow> 'a list \<Rightarrow> 'a list" where
  "slice start fin xs = take (fin - start) (drop start xs)"


section \<open>Data model (src/types.ts)\<close>

text \<open>
  The fields of type \<open>number\<close> hold array lengths; they are integers here, so that the
  rules of the suggester are stated for every integer, negative ones included.
\<close>

record GitAnalysis =
  filesChanged :: "jsstring list"
  additions :: int
  deletions :: int
  hasStaged :: bool
  hasUnstaged :: bool
  diff :: jsstring

record CommitMessage =
  type :: jsstring
  scope :: "jsstring option"
  subject :: jsstring
  body :: "jsstring option"
  breaking :: "bool option"


section \<open>Change Analyzer (src/index.ts, CommitGen.exec and CommitGen.analyzeChanges)\<close>

subsection \<open>exec\<close>

text \<open>
  \<open>execSync\<close> either returns the command's output or throws; \<open>exec\<close> trims the output
  and turns the exception into the empty string. The argument is the outcome of
  \<open>execSync(cmd, ...)\<close>.
\<close>

datatype exec_error = ExecFailed

definition exec :: "exec_error + jsstring \<Rightarrow> jsstring" where
  "exec out = (case out of Inr s \<Rightarrow> trim s | Inl e \<Rightarrow> [])"

subsection \<open>The stat line pattern \<open>/^\s*(.+?)\s+\|/\<close>\<close>

text \<open>
  The pattern has no \<open>m\<close> flag, so \<open>^\<close> holds at index 0 only and a match starts there.
  The three functions follow the backtracking matcher of ECMAScript, one per part of the
  pattern.

  \<open>blanks_bar s\<close>: \<open>\s+\|\<close> matches at the start of \<open>s\<close>. The greedy \<open>\s+\<close> takes a
  whitespace code unit and then either takes more or hands over to \<open>\|\<close>.
\<close>

fun blanks_bar :: "jsstring \<Rightarrow> bool" where
  "blanks_bar [] = False"
| "blanks_bar (c # cs) =
     (isSpace c \<and> (blanks_bar cs \<or> (case cs of [] \<Rightarrow> False | d # _ \<Rightarrow> d = 0x007C)))"

text \<open>
  \<open>lazy_dot acc s\<close>: the lazy group \<open>(.+?)\<close> has captured \<open>acc\<close> (not empty) and stands
  before \<open>s\<close>. It first tries the rest of the pattern; only when that fails does it take
  one more code unit, which \<open>.\<close> accepts unless it is a line terminator.
\<close>

fun lazy_dot :: "jsstring \<Rightarrow> jsstring \<Rightarrow> jsstring option" where
  "lazy_dot acc [] = None"
| "lazy_dot acc (c # cs) =
     (if blanks_bar (c # cs) then Some acc
      else if isLineTerminator c then None
      else lazy_dot (acc @ [c]) cs)"

text \<open>\<open>capture s\<close>: \<open>(.+?)\s+\|\<close> at the start of \<open>s\<close>; the group takes at least one code unit.\<close>

fun capture :: "jsstring \<Rightarrow> jsstring option" where
  "capture [] = None"
| "capture (c # cs) = (if isLineTerminator c then None else lazy_dot [c] cs)"

text \<open>
  \<open>match_stat_line line\<close>: \<open>line.match(/^\s*(.+?)\s+\|/)\<close>, as \<open>match[1]\<close> when there is a
  match and \<open>None\<close> for \<open>null\<close>. The greedy \<open>\s*\<close> takes a whitespace code unit and goes on;
  when the rest of the pattern fails after that, it gives the code unit back and the group
  starts there.
\<close>

fun match_stat_line :: "jsstring \<Rightarrow> jsstring option" where
  "match_stat_line [] = None"
| "match_stat_line (c # cs) =
     (if isSpace c
      then (case match_stat_line cs of Some p \<Rightarrow> Some p | None \<Rightarrow> capture (c # cs))
      else capture (c # cs))"

subsection \<open>The diff line patterns \<open>/^\+(?!\+)/gm\<close> and \<open>/^-(?!-)/gm\<close>\<close>

text \<open>
  With the \<open>m\<close> flag \<open>^\<close> holds at index 0 and after every line terminator. Both patterns
  are \<open>^c(?!c)\<close> for a code unit \<open>c\<close>; a match is the one code unit \<open>c\<close>, and the negative
  lookahead holds at the end of the text. \<open>scan_g c at_start s\<close> lists the matches in \<open>s\<close>,
  \<open>at_start\<close> telling whether \<open>^\<close> holds at the head of \<open>s\<close>. \<open>match_g\<close> is
  \<open>s.match(...)\<close> with the \<open>g\<close> flag: the array of all matches, or \<open>null\<close> when there is
  none.
\<close>

fun scan_g :: "jschar \<Rightarrow> bool \<Rightarrow> jsstring \<Rightarrow> jsstring list" where
  "scan_g ch at_start [] = []"
| "scan_g ch at_start (c # cs) =
     (if at_start \<and> c = ch \<and> (case cs of [] \<Rightarrow> True | d # _ \<Rightarrow> d \<noteq> ch)
      then [ch] # scan_g ch (isLineTerminator c) cs
      else scan_g ch (isLineTerminator c) cs)"

definition match_g :: "jschar \<Rightarrow> jsstring \<Rightarrow> jsstring list option" where
  "match_g ch s = (let ms = scan_g ch True s in if ms = [] then None else Some ms)"

text \<open>\<open>m || []\<close> for a match result \<open>m\<close>.\<close>

definition or_empty :: "'a list option \<Rightarrow> 'a list" where
  "or_empty m = (case m of None \<Rightarrow> [] | Some ms \<Rightarrow> ms)"

subsection \<open>analyzeChanges\<close>

text \<open>
  \<open>push_match files line\<close> is the body of the \<open>forEach\<close> callback; \<open>extract_files\<close> is
  lines 46 to 53: the array \<open>files\<close> after the guarded loop.
\<close>

definition push_match :: "jsstring list \<Rightarrow> jsstring \<Rightarrow> jsstring list" where
  "push_match files line =
     (case match_stat_line line of None \<Rightarrow> files | Some p \<Rightarrow> files @ [p])"

definition extract_files :: "jsstring \<Rightarrow> jsstring list" where
  "extract_files staged =
     (if staged \<noteq> [] then foldl push_match [] (split_nl staged) else [])"

text \<open>
  \<open>analyzeChanges_body staged unstaged diff\<close> is lines 46 to 65, for the values of the three
  local constants; \<open>analyzeChanges\<close> is the whole method, its arguments the outcomes of
  the three git commands it runs through \<open>exec\<close>.
\<close>

definition analyzeChanges_body :: "jsstring \<Rightarrow> jsstring \<Rightarrow> jsstring \<Rightarrow> GitAnalysis" where
  "analyzeChanges_body staged unstaged d =
     \<lparr> filesChanged = extract_files staged,
       additions = int (length (or_empty (match_g 0x002B d))),
       deletions = int (length (or_empty (match_g 0x002D d))),
       hasStaged = (staged \<noteq> []),
       hasUnstaged = (unstaged \<noteq> []),
       diff = d \<rparr>"

definition analyzeChanges ::
  "exec_error + jsstring \<Rightarrow> exec_error + jsstring \<Rightarrow> exec_error + jsstring \<Rightarrow> GitAnalysis" where
  "analyzeChanges stat_out tracked_out diff_out =
     (let staged = exec stat_out;
          unstaged = exec tracked_out;
          d = exec diff_out
      in analyzeChanges_body staged unstaged d)"


section \<open>Rule-Based Suggester\<close>

subsection \<open>The path markers (the same in both implementations)\<close>

definition hasTests :: "jsstring list \<Rightarrow> bool" where
  "hasTests files =
     list_ex (\<lambda>f. js_includes f (js ''test'') \<or> js_includes f (js ''spec'')
                 \<or> js_includes f (js ''__tests__'')) files"

definition hasDocs :: "jsstring list \<Rightarrow> bool" where
  "hasDocs files =
     list_ex (\<lambda>f. js_includes f (js ''README'') \<or> js_includes f (js ''.md'')) files"

definition hasConfig :: "jsstring list \<Rightarrow> bool" where
  "hasConfig files =
     list_ex (\<lambda>f. js_includes f (js ''config'') \<or> js_includes f (js ''.json'')
                 \<or> js_includes f (js ''package.json'')) files"

text \<open>The object literal \<open>{ type: t, subject: s }\<close>: the other fields stay undefined.\<close>

definition msg :: "jsstring \<Rightarrow> jsstring \<Rightarrow> CommitMessage" where
  "msg t s = \<lparr> type = t, scope = None, subject = s, body = None, breaking = None \<rparr>"

subsection \<open>CommitGen.getFallbackSuggestions (src/index.ts, lines 288 to 359)\<close>

text \<open>
  \<open>CommitGen_suggestions\<close> is the array \<open>suggestions\<close> when line 358 is reached;
  \<open>s1\<close> to \<open>s5\<close> are the array after each of the five conditional pushes.
  \<open>CommitGen_getFallbackSuggestions\<close> is the value returned.
\<close>

definition CommitGen_suggestions :: "GitAnalysis \<Rightarrow> CommitMessage list" where
  "CommitGen_suggestions analysis =
     (let files = filesChanged analysis;
          adds = additions analysis;
          dels = deletions analysis;
          s0 = [];
          s1 = (if adds > dels * 2 \<and> adds > 20
                then s0 @ [msg (js ''feat'') (js ''add new feature'')] else s0);
          s2 = (if dels > adds * 2 \<and> dels > 20
                then s1 @ [msg (js ''refactor'') (js ''remove unused code'')] else s1);
          s3 = (if hasTests files
                then s2 @ [msg (js ''test'') (js ''add tests'')] else s2);
          s4 = (if hasDocs files
                then s3 @ [msg (js ''docs'') (js ''update documentation'')] else s3);
          s5 = (if hasConfig files
                then s4 @ [msg (js ''chore'') (js ''update configuration'')] else s4)
      in if length s5 = 0
         then s5 @ [msg (js ''feat'') (js ''add feature''),
                    msg (js ''fix'') (js ''fix issue''),
                    msg (js ''refactor'') (js ''refactor code'')]
         else s5)"

definition CommitGen_getFallbackSuggestions :: "GitAnalysis \<Rightarrow> CommitMessage list" where
  "CommitGen_getFallbackSuggestions analysis = slice 0 5 (CommitGen_suggestions analysis)"

subsection \<open>VercelGoogleProvider.getFallbackSuggestions (src/providers/vercel-google.ts, lines 51 to 112)\<close>

text \<open>
  The methods \<open>inferScope\<close> and \<open>inferFeatureType\<close> are inherited from \<open>BaseProvider\<close>
  (src/providers/base.ts), which is not among the sources at hand. They are parameters
  of the model: functions from the file list to a string, as their uses in the template
  literals and in the \<open>scope\<close> field show. Nothing is assumed about what they return.
\<close>

definition VercelGoogleProvider_getFallbackSuggestions ::
  "(jsstring list \<Rightarrow> jsstring) \<Rightarrow> (jsstring list \<Rightarrow> jsstring) \<Rightarrow> GitAnalysis \<Rightarrow> CommitMessage list" where
  "VercelGoogleProvider_getFallbackSuggestions inferScope inferFeatureType analysis =
     (let files = filesChanged analysis;
          adds = additions analysis;
          dels = deletions analysis;
          s0 = [];
          s1 = (if adds > dels * 2 \<and> adds > 20
                then s0 @ [\<lparr> type = js ''feat'', scope = Some (inferScope files),
                             subject = js ''add '' @ inferFeatureType files,
                             body = None, breaking = None \<rparr>]
                else s0);
          s2 = (if dels > adds * 2 \<and> dels > 20
                then s1 @ [msg (js ''refactor'') (js ''remove unused '' @ inferFeatureType files)]
                else s1);
          s3 = (if hasTests files
                then s2 @ [msg (js ''test'') (js ''add tests for '' @ inferScope files)] else s2);
          s4 = (if hasDocs files
                then s3 @ [msg (js ''docs'') (js ''update documentation'')] else s3);
          s5 = (if hasConfig files
                then s4 @ [msg (js ''chore'') (js ''update configuration'')] else s4)
      in if length s5 = 0
         then s5 @ [msg (js ''feat'') (js ''update '' @ inferScope files)]
         else s5)"


section \<open>The specification's notions\<close>

subsection \<open>Lines of a diff text\<close>

text \<open>
  A diff text is a sequence of lines that end at LF; its lines are the pieces that
  \<open>split_nl\<close> gives. A line begins with exactly one \<open>c\<close> when its first code unit is \<open>c\<close>
  and its second, if there is one, is not. \<open>count_diff_lines c d\<close> is the number of lines
  of the diff text \<open>d\<close> that begin with exactly one \<open>c\<close>.
\<close>

definition begins_with_single :: "jschar \<Rightarrow> jsstring \<Rightarrow> bool" where
  "begins_with_single ch l =
     (case l of [] \<Rightarrow> False
      | c # r \<Rightarrow> c = ch \<and> (case r of [] \<Rightarrow> True | d # _ \<Rightarrow> d \<noteq> ch))"

definition count_diff_lines :: "jschar \<Rightarrow> jsstring \<Rightarrow> nat" where
  "count_diff_lines ch d = length (filter (begins_with_single ch) (split_nl d))"

subsection \<open>The "path | changes" shape of a stat line\<close>

text \<open>
  \<open>run_then_bar s\<close>: \<open>s\<close> begins with a run of whitespace that is followed by \<open>|\<close>.
  \<open>before_run_bar s\<close>: everything before the first such run in \<open>s\<close>, if there is one.
\<close>

definition run_then_bar :: "jsstring \<Rightarrow> bool" where
  "run_then_bar s =
     (s \<noteq> [] \<and> isSpace (hd s) \<and>
      (case dropWhile isSpace s of [] \<Rightarrow> False | d # _ \<Rightarrow> d = 0x007C))"

fun before_run_bar :: "jsstring \<Rightarrow> jsstring option" where
  "before_run_bar [] = None"
| "before_run_bar (c # cs) =
     (if run_then_bar (c # cs) then Some []
      else map_option ((#) c) (before_run_bar cs))"

text \<open>
  The path of a line in the words of the specification: leading whitespace stripped, then
  everything before the first run of whitespace followed by \<open>|\<close>; a line with no such run,
  or with nothing before it, has no path.
\<close>

definition claimed_path :: "jsstring \<Rightarrow> jsstring option" where
  "claimed_path line =
     (case before_run_bar (dropWhile isSpace line) of
        None \<Rightarrow> None
      | Some p \<Rightarrow> if p = [] then None else Some p)"

text \<open>
  The shape the pattern accepts once the leading whitespace is gone: as \<open>claimed_path\<close>,
  and the path holds no line terminator (\<open>.\<close> does not match CR, U+2028 and U+2029).
\<close>

definition shape :: "jsstring \<Rightarrow> jsstring option" where
  "shape s =
     (case before_run_bar s of
        None \<Rightarrow> None
      | Some p \<Rightarrow> if p = [] \<or> list_ex isLineTerminator p then None else Some p)"

definition stat_path :: "jsstring \<Rightarrow> jsstring option" where
  "stat_path line = shape (dropWhile isSpace line)"

subsection \<open>The rules of the suggester, in their order\<close>

text \<open>
  The types of the candidates that rules 1 to 5 contribute for an analysis: one per rule
  that matches, in the order feat-size, refactor-size, test, docs, chore.
\<close>

definition rule_types :: "GitAnalysis \<Rightarrow> jsstring list" where
  "rule_types a =
     (if additions a > 2 * deletions a \<and> additions a > 20 then [js ''feat''] else [])
     @ (if deletions a > 2 * additions a \<and> deletions a > 20 then [js ''refactor''] else [])
     @ (if hasTests (filesChanged a) then [js ''test''] else [])
     @ (if hasDocs (filesChanged a) then [js ''docs''] else [])
     @ (if hasConfig (filesChanged a) then [js ''chore''] else [])"


section \<open>What the diff line patterns divide a text into\<close>

text \<open>
  This section describes the code, not the lines of a diff. The multiline \<open>^\<close> holds
  after every line terminator, so the patterns of lines 55 and 56 see a text as the
  pieces between line terminators of any kind: LF, and also CR, U+2028 and U+2029.
  \<open>regex_pieces s\<close> are these pieces, and \<open>count_regex_pieces c s\<close> is the number of them
  that begin with exactly one \<open>c\<close>.
\<close>

fun regex_pieces :: "jsstring \<Rightarrow> jsstring list" where
  "regex_pieces [] = [[]]"
| "regex_pieces (c # cs) =
     (if isLineTerminator c then [] # regex_pieces cs
      else (case regex_pieces cs of [] \<Rightarrow> [[c]] | l # ls \<Rightarrow> (c # l) # ls))"

definition count_regex_pieces :: "jschar \<Rightarrow> jsstring \<Rightarrow> nat" where
  "count_regex_pieces ch s = length (filter (begins_with_single ch) (regex_pieces s))"


section \<open>Change Analyzer: counting diff lines\<close>

lemma regex_pieces_not_Nil: "regex_pieces s \<noteq> []"
  by (induction s) (auto split: list.splits)

lemma regex_pieces_first_head:
  assumes "\<not> isLineTerminator ch"
  shows "(case cs of [] \<Rightarrow> True | d # _ \<Rightarrow> d \<noteq> ch)
       = (case hd (regex_pieces cs) of [] \<Rightarrow> True | d # _ \<Rightarrow> d \<noteq> ch)"
  using assms by (cases cs) (auto split: list.splits)

text \<open>
  The scanner and the pieces, for both values of the flag: away from a start the first
  piece of the rest cannot match, at a start it can.
\<close>

lemma scan_g_lines:
  assumes "\<not> isLineTerminator ch"
  shows "length (scan_g ch False s) = length (filter (begins_with_single ch) (tl (regex_pieces s)))
       \<and> length (scan_g ch True s) = length (filter (begins_with_single ch) (regex_pieces s))"
proof (induction s)
  case Nil
  show ?case by (simp add: begins_with_single_def)
next
  case (Cons c cs)
  obtain l ls where ls: "regex_pieces cs = l # ls"
    using regex_pieces_not_Nil [of cs] by (cases "regex_pieces cs") auto
  show ?case
  proof (cases "isLineTerminator c")
    case True
    with assms have "c \<noteq> ch" by auto
    with True Cons show ?thesis by (simp add: begins_with_single_def)
  next
    case False
    have nxt: "(case cs of [] \<Rightarrow> True | d # _ \<Rightarrow> d \<noteq> ch)
             = (case l of [] \<Rightarrow> True | d # _ \<Rightarrow> d \<noteq> ch)"
      using regex_pieces_first_head [OF assms, of cs] ls by simp
    from assms have nt: "isLineTerminator ch = False" by simp
    from Cons ls have ih1: "length (scan_g ch False cs) = length (filter (begins_with_single ch) ls)"
      by simp
    have here: "begins_with_single ch (c # l)
              = (c = ch \<and> (case cs of [] \<Rightarrow> True | d # _ \<Rightarrow> d \<noteq> ch))"
      by (simp add: begins_with_single_def nxt)
    have lines: "regex_pieces (c # cs) = (c # l) # ls"
      using False ls by simp
    have scan_True: "length (scan_g ch True (c # cs))
                   = length (filter (begins_with_single ch) ((c # l) # ls))"
      using False ih1 by (simp add: here nt)
    have scan_False: "length (scan_g ch False (c # cs)) = length (filter (begins_with_single ch) ls)"
      using False ih1 by simp
    from scan_True scan_False show ?thesis
      unfolding lines by simp
  qed
qed

lemma match_g_count:
  "\<not> isLineTerminator ch \<Longrightarrow> length (or_empty (match_g ch s)) = count_regex_pieces ch s"
proof -
  assume "\<not> isLineTerminator ch"
  then have len: "length (scan_g ch True s) = count_regex_pieces ch s"
    using scan_g_lines [of ch s] by (simp add: count_regex_pieces_def)
  show ?thesis
  proof (cases "scan_g ch True s = []")
    case True
    with len show ?thesis by (simp add: match_g_def or_empty_def)
  next
    case False
    with len show ?thesis by (simp add: match_g_def or_empty_def)
  qed
qed

text \<open>
  In a text whose only line terminators are LF, the pieces are the lines of the diff.
\<close>

lemma regex_pieces_split_nl:
  "\<forall>c \<in> set s. isLineTerminator c \<longrightarrow> c = 0x000A \<Longrightarrow> regex_pieces s = split_nl s"
  by (induction s) (auto simp: isLineTerminator_def split: list.splits)

text \<open>What the code counts, for every text: the pieces that begin with exactly one sign.\<close>

lemma analyzeChanges_counts_regex_pieces:
  "additions (analyzeChanges_body staged unstaged d) = int (count_regex_pieces 0x002B d)
   \<and> deletions (analyzeChanges_body staged unstaged d) = int (count_regex_pieces 0x002D d)"
  by (simp add: analyzeChanges_body_def match_g_count isLineTerminator_def)

text \<open>
  On a diff text whose only line terminators are LF the code counts as the claim says:
  \<open>additions\<close> is the number of diff lines that begin with exactly one \<open>+\<close> (0x2B) and
  \<open>deletions\<close> the number of diff lines that begin with exactly one \<open>-\<close> (0x2D).
\<close>

lemma analyzeChanges_counts_LF_text:
  assumes "\<forall>c \<in> set d. isLineTerminator c \<longrightarrow> c = 0x000A"
  shows "additions (analyzeChanges_body staged unstaged d) = int (count_diff_lines 0x002B d)
       \<and> deletions (analyzeChanges_body staged unstaged d) = int (count_diff_lines 0x002D d)"
proof -
  from assms have "regex_pieces d = split_nl d" by (rule regex_pieces_split_nl)
  then have "count_regex_pieces ch d = count_diff_lines ch d" for ch
    by (simp add: count_regex_pieces_def count_diff_lines_def)
  then show ?thesis by (simp add: analyzeChanges_counts_regex_pieces)
qed

text \<open>The diff \<open>"+++ a\n+foo\n-bar\n--- b\n"\<close> of the claim gives 1 and 1, as its lines do.\<close>

lemma analyzeChanges_counts_example:
  "additions (analyzeChanges_body staged unstaged
       (js ''+++ a\<newline>+foo\<newline>-bar\<newline>--- b\<newline>'')) = 1
   \<and> deletions (analyzeChanges_body staged unstaged
       (js ''+++ a\<newline>+foo\<newline>-bar\<newline>--- b\<newline>'')) = 1
   \<and> count_diff_lines 0x002B (js ''+++ a\<newline>+foo\<newline>-bar\<newline>--- b\<newline>'') = 1
   \<and> count_diff_lines 0x002D (js ''+++ a\<newline>+foo\<newline>-bar\<newline>--- b\<newline>'') = 1"
  by (simp add: analyzeChanges_body_def count_diff_lines_def begins_with_single_def js_def
        match_g_def or_empty_def isLineTerminator_def)

text \<open>
  Claim C1. The claim: for every diff text, \<open>additions\<close> is the number of lines that
  begin with exactly one \<open>+\<close> and \<open>deletions\<close> the number of lines that begin with exactly
  one \<open>-\<close>. The code departs from it on a diff line that holds a carriage return. The
  diff text here is the one line \<open>+- a\<close> CR \<open>- b\<close> CR \<open>- c\<close>, an added line whose content
  holds two carriage returns. It is a single line, it begins with \<open>+\<close>, and no line begins
  with \<open>-\<close>: one addition and no deletion. The code reports one addition and two
  deletions, because the multiline \<open>^\<close> of line 56 also holds after each CR.
\<close>

theorem analyzeChanges_counts_carriage_return:
  "split_nl (js ''+- a'' @ [0x000D] @ js ''- b'' @ [0x000D] @ js ''- c'')
     = [js ''+- a'' @ [0x000D] @ js ''- b'' @ [0x000D] @ js ''- c'']
   \<and> count_diff_lines 0x002B (js ''+- a'' @ [0x000D] @ js ''- b'' @ [0x000D] @ js ''- c'') = 1
   \<and> count_diff_lines 0x002D (js ''+- a'' @ [0x000D] @ js ''- b'' @ [0x000D] @ js ''- c'') = 0
   \<and> additions (analyzeChanges_body [] []
         (js ''+- a'' @ [0x000D] @ js ''- b'' @ [0x000D] @ js ''- c'')) = 1
   \<and> deletions (analyzeChanges_body [] []
         (js ''+- a'' @ [0x000D] @ js ''- b'' @ [0x000D] @ js ''- c'')) = 2"
  by (simp add: analyzeChanges_body_def count_diff_lines_def begins_with_single_def js_def
        match_g_def or_empty_def isLineTerminator_def)

text \<open>The counts of the whole method are those of the trimmed output of \<open>git diff --cached\<close>.\<close>

lemma analyzeChanges_counts:
  "additions (analyzeChanges stat_out tracked_out diff_out)
     = int (count_regex_pieces 0x002B (exec diff_out))
   \<and> deletions (analyzeChanges stat_out tracked_out diff_out)
     = int (count_regex_pieces 0x002D (exec diff_out))"
  by (simp add: analyzeChanges_def analyzeChanges_body_def Let_def match_g_count
        isLineTerminator_def)


section \<open>Change Analyzer: extracting the file paths\<close>

lemma bar_not_space: "\<not> isSpace 0x007C"
  by (simp add: isSpace_def isLineTerminator_def)

lemma blanks_bar_run: "blanks_bar s = run_then_bar s"
proof (induction s)
  case Nil
  show ?case by (simp add: run_then_bar_def)
next
  case (Cons c cs)
  show ?case
  proof (cases "isSpace c")
    case False
    then show ?thesis by (simp add: run_then_bar_def)
  next
    case True
    show ?thesis
    proof (cases cs)
      case Nil
      with True show ?thesis by (simp add: run_then_bar_def)
    next
      case (Cons d ds)
      with True Cons.IH bar_not_space show ?thesis
        by (auto simp: run_then_bar_def)
    qed
  qed
qed

text \<open>
  The lazy group stops at the first place where \<open>\s+\|\<close> matches, unless a line
  terminator comes before that place.
\<close>

lemma lazy_dot_before:
  "lazy_dot acc s =
     (case before_run_bar s of
        None \<Rightarrow> None
      | Some p \<Rightarrow> if list_ex isLineTerminator p then None else Some (acc @ p))"
proof (induction s arbitrary: acc)
  case Nil
  show ?case by simp
next
  case (Cons c cs)
  show ?case
    by (cases "before_run_bar cs")
       (simp_all add: blanks_bar_run Cons.IH del: blanks_bar.simps)
qed

lemma capture_shape: "\<not> blanks_bar s \<Longrightarrow> capture s = shape s"
proof (cases s)
  case Nil
  then show ?thesis by (simp add: shape_def)
next
  case (Cons c cs)
  assume "\<not> blanks_bar s"
  with Cons have nb: "\<not> run_then_bar (c # cs)"
    by (simp add: blanks_bar_run del: blanks_bar.simps)
  show ?thesis unfolding Cons
    using nb by (cases "before_run_bar cs") (simp_all add: shape_def lazy_dot_before)
qed

text \<open>
  Giving a whitespace code unit back to the group does not help, as long as the line does
  not begin with a run of whitespace followed by \<open>|\<close>.
\<close>

lemma shape_drop_space:
  assumes "isSpace c" and "\<not> blanks_bar (c # cs)" and "shape cs = None"
  shows "shape (c # cs) = None"
proof -
  from assms(1,2) have nb: "\<not> run_then_bar cs"
    by (cases cs) (auto simp: blanks_bar_run [symmetric])
  from assms(2) have nb': "\<not> run_then_bar (c # cs)"
    by (simp add: blanks_bar_run del: blanks_bar.simps)
  have ne: "before_run_bar cs \<noteq> Some []"
    using nb by (cases cs) (auto split: if_splits)
  show ?thesis
    using assms(3) nb' ne
    by (cases "before_run_bar cs") (auto simp: shape_def split: if_splits)
qed

lemma shape_dropWhile:
  "\<not> blanks_bar s \<Longrightarrow> shape (dropWhile isSpace s) = None \<Longrightarrow> shape s = None"
proof (induction s)
  case Nil
  then show ?case by simp
next
  case (Cons c cs)
  show ?case
  proof (cases "isSpace c")
    case False
    with Cons.prems show ?thesis by simp
  next
    case True
    with Cons.prems have "\<not> blanks_bar cs" by auto
    with Cons True have "shape cs = None" by simp
    with True Cons.prems(1) show ?thesis by (rule shape_drop_space)
  qed
qed

lemma match_stat_line_path:
  "\<not> blanks_bar line \<Longrightarrow> match_stat_line line = stat_path line"
proof (induction line)
  case Nil
  show ?case by (simp add: stat_path_def shape_def)
next
  case (Cons c cs)
  show ?case
  proof (cases "isSpace c")
    case False
    with Cons.prems show ?thesis
      using capture_shape [of "c # cs"]
      by (simp add: stat_path_def del: capture.simps blanks_bar.simps)
  next
    case True
    with Cons.prems have nb: "\<not> blanks_bar cs" by auto
    then have ih: "match_stat_line cs = stat_path cs" by (rule Cons.IH)
    show ?thesis
    proof (cases "stat_path cs")
      case (Some p)
      with True ih show ?thesis by (simp add: stat_path_def del: capture.simps)
    next
      case None
      then have "shape cs = None"
        using shape_dropWhile [OF nb] by (simp add: stat_path_def)
      with True Cons.prems have "shape (c # cs) = None" by (rule shape_drop_space)
      with Cons.prems have "capture (c # cs) = None"
        by (simp add: capture_shape del: capture.simps blanks_bar.simps)
      with True ih None show ?thesis by (simp add: stat_path_def del: capture.simps)
    qed
  qed
qed

text \<open>The \<open>forEach\<close> loop appends the captures of the matching lines, in line order.\<close>

lemma foldl_push_match:
  "foldl push_match acc ls = acc @ List.map_filter match_stat_line ls"
  by (induction ls arbitrary: acc)
     (auto simp: push_match_def List.map_filter_simps split: option.splits)

lemma extract_files_map_filter:
  "extract_files staged = List.map_filter match_stat_line (split_nl staged)"
  by (simp add: extract_files_def foldl_push_match List.map_filter_simps)

text \<open>
  The pattern and the claimed path, for every line: either the pattern captures the path
  of the line, or the line has no path, begins with a run of whitespace followed by \<open>|\<close>,
  and the pattern captures one whitespace code unit of that run.
\<close>

lemma lazy_dot_no_path:
  assumes "\<not> run_then_bar cs" and "shape cs = None"
  shows "lazy_dot acc cs = None"
proof -
  have ne: "before_run_bar cs \<noteq> Some []"
    using assms(1) by (cases cs) (auto split: if_splits)
  show ?thesis
    using assms(2) ne
    by (cases "before_run_bar cs") (auto simp: shape_def lazy_dot_before split: if_splits)
qed

lemma match_stat_line_path_or_blank:
  "match_stat_line line = stat_path line
   \<or> (stat_path line = None \<and> run_then_bar line
      \<and> (\<exists>c. isSpace c \<and> \<not> isLineTerminator c \<and> c \<in> set line
             \<and> match_stat_line line = Some [c]))"
proof (induction line)
  case Nil
  show ?case by (simp add: stat_path_def shape_def)
next
  case (Cons c cs)
  show ?case
  proof (cases "isSpace c")
    case False
    then have "\<not> blanks_bar (c # cs)" by simp
    then have "capture (c # cs) = shape (c # cs)" by (rule capture_shape)
    with False show ?thesis by (simp add: stat_path_def del: capture.simps)
  next
    case True
    then have sp: "stat_path (c # cs) = stat_path cs" by (simp add: stat_path_def)
    from Cons.IH show ?thesis
    proof
      assume slip: "stat_path cs = None \<and> run_then_bar cs
        \<and> (\<exists>d. isSpace d \<and> \<not> isLineTerminator d \<and> d \<in> set cs \<and> match_stat_line cs = Some [d])"
      then obtain d where d: "isSpace d" "\<not> isLineTerminator d" "d \<in> set cs"
        "match_stat_line cs = Some [d]" by blast
      from slip True have rb: "run_then_bar (c # cs)" by (simp add: run_then_bar_def)
      from d(4) True have md: "match_stat_line (c # cs) = Some [d]" by simp
      from d(3) have "d \<in> set (c # cs)" by simp
      with d(1,2) md have "\<exists>e. isSpace e \<and> \<not> isLineTerminator e \<and> e \<in> set (c # cs)
          \<and> match_stat_line (c # cs) = Some [e]" by blast
      moreover from slip sp have "stat_path (c # cs) = None" by simp
      ultimately show ?thesis using rb by blast
    next
      assume agree: "match_stat_line cs = stat_path cs"
      show ?thesis
      proof (cases "stat_path cs")
        case (Some p)
        with True agree sp show ?thesis by simp
      next
        case None
        with True agree have m: "match_stat_line (c # cs) = capture (c # cs)" by simp
        show ?thesis
        proof (cases "blanks_bar cs")
          case bb: True
          with True have rb: "run_then_bar (c # cs)"
            by (simp add: blanks_bar_run [symmetric])
          show ?thesis
          proof (cases "isLineTerminator c")
            case True
            with m None sp show ?thesis by simp
          next
            case False
            from bb obtain x xs where xs: "cs = x # xs" by (cases cs) simp_all
            from bb have "lazy_dot [c] cs = Some [c]"
              unfolding xs by (simp del: blanks_bar.simps)
            with False have "capture (c # cs) = Some [c]" by simp
            with m have mc: "match_stat_line (c # cs) = Some [c]" by (simp only:)
            have "c \<in> set (c # cs)" by simp
            with True False mc have "\<exists>e. isSpace e \<and> \<not> isLineTerminator e \<and> e \<in> set (c # cs)
                \<and> match_stat_line (c # cs) = Some [e]" by blast
            moreover from None sp have "stat_path (c # cs) = None" by simp
            ultimately show ?thesis using rb by blast
          qed
        next
          case nb: False
          show ?thesis
          proof (cases "blanks_bar (c # cs)")
            case False
            from nb None have "shape cs = None"
              using shape_dropWhile [of cs] by (simp add: stat_path_def)
            with True False have "shape (c # cs) = None" by (rule shape_drop_space)
            with False have "capture (c # cs) = None"
              by (simp add: capture_shape del: capture.simps blanks_bar.simps)
            with m None sp show ?thesis by simp
          next
            case bc: True
            with nb have "case cs of [] \<Rightarrow> False | d # _ \<Rightarrow> d = 0x007C" by simp
            then obtain r where cs: "cs = 0x007C # r"
              by (cases cs) simp_all
            from nb have nr: "\<not> run_then_bar cs" by (simp add: blanks_bar_run)
            from cs None have "shape cs = None"
              using bar_not_space by (simp add: stat_path_def)
            with nr have "lazy_dot [c] cs = None" by (rule lazy_dot_no_path)
            then have "capture (c # cs) = None" by simp
            with m None sp show ?thesis by simp
          qed
        qed
      qed
    qed
  qed
qed

lemma match_stat_line_agrees:
  assumes "run_then_bar line \<longrightarrow> stat_path line \<noteq> None"
  shows "match_stat_line line = stat_path line"
  using match_stat_line_path_or_blank [of line] assms by blast


text \<open>
  A path that holds a carriage return is not extracted either: \<open>.\<close> stops at it.
\<close>

lemma match_stat_line_carriage_return:
  "match_stat_line (js ''b'' @ [0x000D] @ js ''c | 2'') = None
   \<and> claimed_path (js ''b'' @ [0x000D] @ js ''c | 2'') = Some (js ''b'' @ [0x000D] @ js ''c'')"
  by (simp add: claimed_path_def run_then_bar_def js_def isSpace_def isLineTerminator_def)

text \<open>
  Where the code does as the claim says: when every line that begins with a run of
  whitespace followed by \<open>|\<close> has a path all the same, \<open>filesChanged\<close> holds, in line
  order, exactly the paths of the lines that have the shape, and every other line
  contributes nothing.
\<close>

lemma filesChanged_paths_in_line_order:
  assumes "\<forall>line \<in> set (split_nl staged). run_then_bar line \<longrightarrow> stat_path line \<noteq> None"
  shows "filesChanged (analyzeChanges_body staged unstaged d)
       = List.map_filter stat_path (split_nl staged)"
proof -
  have "List.map_filter match_stat_line ls = List.map_filter stat_path ls"
    if "\<forall>line \<in> set ls. run_then_bar line \<longrightarrow> stat_path line \<noteq> None" for ls
    using that
    by (induction ls)
       (simp_all add: List.map_filter_simps match_stat_line_agrees split: option.splits)
  with assms show ?thesis
    by (simp add: analyzeChanges_body_def extract_files_map_filter)
qed

lemma filesChanged_paths_example:
  "filesChanged (analyzeChanges_body
      (js ''src/a b.ts   | 5 ++-\<newline> README.md |  2 +\<newline> 2 files changed, 3 insertions(+), 1 deletion(-)'')
      [] [])
   = [js ''src/a b.ts'', js ''README.md'']"
  by code_simp


section \<open>Rule-Based Suggester: lengths, types and order\<close>

text \<open>The two size rules exclude each other, for all integers.\<close>

lemma size_rules_exclusive:
  "\<not> ((a::int) > d * 2 \<and> a > 20 \<and> d > a * 2 \<and> d > 20)"
  by arith

lemma rule_types_length: "length (rule_types a) \<le> 4"
  using size_rules_exclusive [of "deletions a" "additions a"]
  by (simp add: rule_types_def)

lemma rule_types_Nil:
  "rule_types a = [] \<longleftrightarrow>
     \<not> (additions a > deletions a * 2 \<and> additions a > 20)
     \<and> \<not> (deletions a > additions a * 2 \<and> deletions a > 20)
     \<and> \<not> hasTests (filesChanged a) \<and> \<not> hasDocs (filesChanged a)
     \<and> \<not> hasConfig (filesChanged a)"
  by (auto simp: rule_types_def)

text \<open>
  The types of the candidates, in order: those of the rules that fire, or the generic
  candidates when none does (three in the orchestrator, one in the provider).
\<close>

lemma CommitGen_suggestions_types:
  "map type (CommitGen_suggestions a)
     = (if rule_types a = [] then [js ''feat'', js ''fix'', js ''refactor''] else rule_types a)"
  by (simp add: CommitGen_suggestions_def rule_types_def Let_def msg_def)

lemma VercelGoogleProvider_types:
  "map type (VercelGoogleProvider_getFallbackSuggestions iS iF a)
     = (if rule_types a = [] then [js ''feat''] else rule_types a)"
  by (simp add: VercelGoogleProvider_getFallbackSuggestions_def rule_types_def Let_def msg_def)

lemma CommitGen_suggestions_length:
  "1 \<le> length (CommitGen_suggestions a) \<and> length (CommitGen_suggestions a) \<le> 4"
proof -
  have "length (CommitGen_suggestions a) = length (map type (CommitGen_suggestions a))" by simp
  also have "\<dots> = (if rule_types a = [] then 3 else length (rule_types a))"
    by (simp add: CommitGen_suggestions_types)
  finally show ?thesis using rule_types_length [of a] by (cases "rule_types a") auto
qed

lemma slice_all: "length xs \<le> n \<Longrightarrow> slice 0 n xs = xs"
  by (simp add: slice_def)

text \<open>The final \<open>slice(0, 5)\<close> of the orchestrator returns the whole array.\<close>

lemma CommitGen_slice_id: "CommitGen_getFallbackSuggestions a = CommitGen_suggestions a"
  using CommitGen_suggestions_length [of a]
  by (simp add: CommitGen_getFallbackSuggestions_def slice_all)

lemma rule_types_example:
  "rule_types \<lparr> filesChanged = [js ''README.md'', js ''package.json'', js ''src/a.test.ts''],
       additions = 45, deletions = 12, hasStaged = True, hasUnstaged = False, diff = [] \<rparr>
   = [js ''feat'', js ''test'', js ''docs'', js ''chore'']"
  by (simp add: rule_types_def hasTests_def hasDocs_def hasConfig_def js_def)

text \<open>
  Claim C2. For every analysis, both implementations of the suggester return between 1
  and 5 candidates, and when a rule matches, the candidates are those of the matching
  rules, one each, in the order feat-size, refactor-size, test, docs, chore.
\<close>

theorem fallback_suggestions_one_to_five_in_rule_order:
  "1 \<le> length (CommitGen_getFallbackSuggestions a)
   \<and> length (CommitGen_getFallbackSuggestions a) \<le> 5
   \<and> 1 \<le> length (VercelGoogleProvider_getFallbackSuggestions inferScope inferFeatureType a)
   \<and> length (VercelGoogleProvider_getFallbackSuggestions inferScope inferFeatureType a) \<le> 5
   \<and> (rule_types a \<noteq> [] \<longrightarrow>
        map type (CommitGen_getFallbackSuggestions a) = rule_types a
        \<and> map type (VercelGoogleProvider_getFallbackSuggestions inferScope inferFeatureType a)
            = rule_types a)"
proof -
  let ?p = "VercelGoogleProvider_getFallbackSuggestions inferScope inferFeatureType a"
  have "length ?p = length (map type ?p)" by simp
  also have "\<dots> = (if rule_types a = [] then 1 else length (rule_types a))"
    by (simp add: VercelGoogleProvider_types)
  finally have p: "1 \<le> length ?p \<and> length ?p \<le> 5"
    using rule_types_length [of a] by (cases "rule_types a") auto
  from p CommitGen_suggestions_length [of a] show ?thesis
    by (simp add: CommitGen_slice_id CommitGen_suggestions_types VercelGoogleProvider_types)
qed

theorem fallback_suggestions_one_to_five_in_rule_order_witness:
  "map type (CommitGen_getFallbackSuggestions
       \<lparr> filesChanged = [js ''README.md'', js ''package.json'', js ''src/a.test.ts''],
         additions = 45, deletions = 12, hasStaged = True, hasUnstaged = False, diff = [] \<rparr>)
     = [js ''feat'', js ''test'', js ''docs'', js ''chore'']
   \<and> map type (VercelGoogleProvider_getFallbackSuggestions (\<lambda>files. js ''core'') (\<lambda>files. js ''feature'')
       \<lparr> filesChanged = [js ''README.md'', js ''package.json'', js ''src/a.test.ts''],
         additions = 45, deletions = 12, hasStaged = True, hasUnstaged = False, diff = [] \<rparr>)
     = [js ''feat'', js ''test'', js ''docs'', js ''chore'']"
  using fallback_suggestions_one_to_five_in_rule_order [of "\<lparr> filesChanged = [js ''README.md'', js ''package.json'', js ''src/a.test.ts''],
         additions = 45, deletions = 12, hasStaged = True, hasUnstaged = False, diff = [] \<rparr>"
         "\<lambda>files. js ''core''" "\<lambda>files. js ''feature''"]
  by (simp add: rule_types_example)

text \<open>
  Claim C9. For an analysis with counts that are not negative, the feat size rule and
  the refactor size rule do not both fire; the orchestrator's array holds at most 4
  candidates before the final slice, those of the rules that fired or else the three
  generic ones, and the slice to 5 drops none of them.
\<close>

theorem size_rules_exclusive_slice_keeps_all:
  assumes "0 \<le> additions a" and "0 \<le> deletions a"
  shows "\<not> ((additions a > 2 * deletions a \<and> additions a > 20)
            \<and> (deletions a > 2 * additions a \<and> deletions a > 20))
       \<and> length (CommitGen_suggestions a) \<le> 4
       \<and> map type (CommitGen_suggestions a)
           = (if rule_types a = [] then [js ''feat'', js ''fix'', js ''refactor'']
              else rule_types a)
       \<and> slice 0 5 (CommitGen_suggestions a) = CommitGen_suggestions a
       \<and> CommitGen_getFallbackSuggestions a = CommitGen_suggestions a"
proof -
  have excl: "\<not> ((additions a > 2 * deletions a \<and> additions a > 20)
            \<and> (deletions a > 2 * additions a \<and> deletions a > 20))"
    using assms by arith
  have len: "length (CommitGen_suggestions a) \<le> 4"
    using CommitGen_suggestions_length [of a] by simp
  then have "slice 0 5 (CommitGen_suggestions a) = CommitGen_suggestions a"
    by (simp add: slice_all)
  with excl len show ?thesis
    by (simp add: CommitGen_suggestions_types CommitGen_getFallbackSuggestions_def)
qed

theorem size_rules_exclusive_slice_keeps_all_witness:
  "length (CommitGen_suggestions
      \<lparr> filesChanged = [js ''README.md'', js ''package.json'', js ''src/a.test.ts''],
        additions = 5, deletions = 60, hasStaged = True, hasUnstaged = False, diff = [] \<rparr>) \<le> 4
   \<and> map type (CommitGen_getFallbackSuggestions
      \<lparr> filesChanged = [js ''README.md'', js ''package.json'', js ''src/a.test.ts''],
        additions = 5, deletions = 60, hasStaged = True, hasUnstaged = False, diff = [] \<rparr>)
     = [js ''refactor'', js ''test'', js ''docs'', js ''chore'']"
proof -
  let ?a = "\<lparr> filesChanged = [js ''README.md'', js ''package.json'', js ''src/a.test.ts''],
        additions = 5, deletions = 60, hasStaged = True, hasUnstaged = False, diff = [] \<rparr>"
  have h1: "0 \<le> additions ?a" and h2: "0 \<le> deletions ?a" by simp_all
  have r: "rule_types ?a = [js ''refactor'', js ''test'', js ''docs'', js ''chore'']"
    by (simp add: rule_types_def hasTests_def hasDocs_def hasConfig_def js_def)
  from size_rules_exclusive_slice_keeps_all [OF h1 h2] r show ?thesis by simp
qed


section \<open>Rule-Based Suggester: the two implementations compared\<close>

text \<open>
  When no rule fires the two implementations return lists of different lengths, whatever
  the helpers of the provider return.
\<close>

lemma fallbacks_differ_without_rule:
  "rule_types a = [] \<Longrightarrow>
   length (CommitGen_getFallbackSuggestions a) = 3
   \<and> length (VercelGoogleProvider_getFallbackSuggestions iS iF a) = 1"
proof -
  assume r: "rule_types a = []"
  let ?p = "VercelGoogleProvider_getFallbackSuggestions iS iF a"
  have "length ?p = length (map type ?p)" by simp
  also have "\<dots> = 1" using r by (simp add: VercelGoogleProvider_types)
  finally have p: "length ?p = 1" .
  have "length (CommitGen_suggestions a) = length (map type (CommitGen_suggestions a))" by simp
  also have "\<dots> = 3" using r by (simp add: CommitGen_suggestions_types)
  finally show ?thesis using p by (simp add: CommitGen_slice_id)
qed

lemma docs_chore_equal:
  "filter (\<lambda>m. type m = js ''docs'' \<or> type m = js ''chore'') (CommitGen_getFallbackSuggestions a)
 = filter (\<lambda>m. type m = js ''docs'' \<or> type m = js ''chore'')
     (VercelGoogleProvider_getFallbackSuggestions inferScope inferFeatureType a)"
  by (simp add: CommitGen_slice_id CommitGen_suggestions_def
        VercelGoogleProvider_getFallbackSuggestions_def Let_def msg_def js_def)

text \<open>
  Claim C3, as stated, fails: for one changed file \<open>src/index.ts\<close> with 3 additions and 2
  deletions no rule fires, and the orchestrator returns three candidates where the
  provider returns one.
\<close>

theorem fallbacks_unequal_counterexample:
  "length (CommitGen_getFallbackSuggestions
      \<lparr> filesChanged = [js ''src/index.ts''], additions = 3, deletions = 2,
        hasStaged = True, hasUnstaged = False, diff = [] \<rparr>) = 3
   \<and> length (VercelGoogleProvider_getFallbackSuggestions (\<lambda>files. js ''core'') (\<lambda>files. js ''feature'')
      \<lparr> filesChanged = [js ''src/index.ts''], additions = 3, deletions = 2,
        hasStaged = True, hasUnstaged = False, diff = [] \<rparr>) = 1"
  by (simp add: CommitGen_getFallbackSuggestions_def CommitGen_suggestions_def
        VercelGoogleProvider_getFallbackSuggestions_def slice_def Let_def
        hasTests_def hasDocs_def hasConfig_def js_def)

text \<open>
  Claim C3, amended. Whenever at least one of rules 1 to 5 fires, the two
  implementations return lists of the same length with the same types in the same order;
  and for every analysis their docs and chore candidates are equal in every field.
\<close>

theorem fallbacks_agree_when_rule_fires:
  assumes "rule_types a \<noteq> []"
  shows "length (CommitGen_getFallbackSuggestions a)
           = length (VercelGoogleProvider_getFallbackSuggestions inferScope inferFeatureType a)
       \<and> map type (CommitGen_getFallbackSuggestions a)
           = map type (VercelGoogleProvider_getFallbackSuggestions inferScope inferFeatureType a)
       \<and> filter (\<lambda>m. type m = js ''docs'' \<or> type m = js ''chore'')
             (CommitGen_getFallbackSuggestions a)
           = filter (\<lambda>m. type m = js ''docs'' \<or> type m = js ''chore'')
               (VercelGoogleProvider_getFallbackSuggestions inferScope inferFeatureType a)"
proof -
  let ?p = "VercelGoogleProvider_getFallbackSuggestions inferScope inferFeatureType a"
  have types: "map type (CommitGen_getFallbackSuggestions a) = map type ?p"
    using assms
    by (simp add: CommitGen_slice_id CommitGen_suggestions_types VercelGoogleProvider_types)
  from types have "length (CommitGen_getFallbackSuggestions a) = length ?p"
    by (rule map_eq_imp_length_eq)
  with types docs_chore_equal [of a inferScope inferFeatureType] show ?thesis by simp
qed

theorem fallbacks_agree_when_rule_fires_witness:
  "map type (CommitGen_getFallbackSuggestions
       \<lparr> filesChanged = [js ''README.md'', js ''package.json'', js ''src/a.test.ts''],
         additions = 45, deletions = 12, hasStaged = True, hasUnstaged = False, diff = [] \<rparr>)
   = map type (VercelGoogleProvider_getFallbackSuggestions (\<lambda>files. js ''core'') (\<lambda>files. js ''feature'')
       \<lparr> filesChanged = [js ''README.md'', js ''package.json'', js ''src/a.test.ts''],
         additions = 45, deletions = 12, hasStaged = True, hasUnstaged = False, diff = [] \<rparr>)"
proof -
  let ?a = "\<lparr> filesChanged = [js ''README.md'', js ''package.json'', js ''src/a.test.ts''],
         additions = 45, deletions = 12, hasStaged = True, hasUnstaged = False, diff = [] \<rparr>"
  have h: "rule_types ?a \<noteq> []"
    by (simp only: rule_types_example) simp
  from fallbacks_agree_when_rule_fires [OF h, of "\<lambda>files. js ''core''" "\<lambda>files. js ''feature''"]
  show ?thesis by blast
qed


section \<open>Rule-Based Suggester: the feat size rule and the generic fallback\<close>

text \<open>
  Claim C4, as stated, fails: for 45 additions, 12 deletions and the one file
  \<open>src/components/Button.tsx\<close> the orchestrator returns a single feat candidate with the
  fixed subject \<open>add new feature\<close> and no scope.
\<close>

theorem orchestrator_feat_without_scope_counterexample:
  "CommitGen_getFallbackSuggestions
      \<lparr> filesChanged = [js ''src/components/Button.tsx''], additions = 45, deletions = 12,
        hasStaged = True, hasUnstaged = False, diff = [] \<rparr>
   = [\<lparr> type = js ''feat'', scope = None, subject = js ''add new feature'',
        body = None, breaking = None \<rparr>]"
  by (simp add: CommitGen_getFallbackSuggestions_def CommitGen_suggestions_def slice_def Let_def
        msg_def hasTests_def hasDocs_def hasConfig_def js_def)

text \<open>
  Claim C4, amended. For every analysis with \<open>additions > 2 * deletions\<close> and
  \<open>additions > 20\<close>, the first candidate of both implementations is a feat candidate. The
  provider's has the scope \<open>inferScope(filesChanged)\<close> and the subject \<open>add\<close> followed by
  \<open>inferFeatureType(filesChanged)\<close>; the orchestrator's has no scope and the fixed
  subject \<open>add new feature\<close>.
\<close>

theorem feat_size_rule_first_candidate:
  assumes "additions a > 2 * deletions a" and "additions a > 20"
  shows "take 1 (VercelGoogleProvider_getFallbackSuggestions inferScope inferFeatureType a)
           = [\<lparr> type = js ''feat'', scope = Some (inferScope (filesChanged a)),
                subject = js ''add '' @ inferFeatureType (filesChanged a),
                body = None, breaking = None \<rparr>]
       \<and> take 1 (CommitGen_getFallbackSuggestions a)
           = [\<lparr> type = js ''feat'', scope = None, subject = js ''add new feature'',
                body = None, breaking = None \<rparr>]"
  using assms
  by (simp add: CommitGen_slice_id CommitGen_suggestions_def
        VercelGoogleProvider_getFallbackSuggestions_def Let_def msg_def)

theorem feat_size_rule_first_candidate_witness:
  "VercelGoogleProvider_getFallbackSuggestions (\<lambda>files. js ''components'') (\<lambda>files. js ''component'')
      \<lparr> filesChanged = [js ''src/components/Button.tsx''], additions = 45, deletions = 12,
        hasStaged = True, hasUnstaged = False, diff = [] \<rparr>
   = [\<lparr> type = js ''feat'', scope = Some (js ''components''),
        subject = js ''add component'', body = None, breaking = None \<rparr>]"
proof -
  let ?a = "\<lparr> filesChanged = [js ''src/components/Button.tsx''], additions = 45, deletions = 12,
        hasStaged = True, hasUnstaged = False, diff = [] \<rparr>"
  let ?p = "VercelGoogleProvider_getFallbackSuggestions (\<lambda>files. js ''components'')
              (\<lambda>files. js ''component'') ?a"
  have h1: "additions ?a > 2 * deletions ?a" and h2: "additions ?a > 20" by simp_all
  have "rule_types ?a = [js ''feat'']"
    by (simp add: rule_types_def hasTests_def hasDocs_def hasConfig_def js_def)
  then have "length (map type ?p) = 1"
    by (simp only: VercelGoogleProvider_types) simp
  then have len: "length ?p = 1" by simp
  have "take 1 ?p = [\<lparr> type = js ''feat'', scope = Some (js ''components''),
        subject = js ''add '' @ js ''component'', body = None, breaking = None \<rparr>]"
    using feat_size_rule_first_candidate [OF h1 h2, of "\<lambda>files. js ''components''" "\<lambda>files. js ''component''"] by simp
  with len show ?thesis by (simp add: js_def)
qed

text \<open>
  Claim C5, as stated, fails: for one changed file \<open>src/index.ts\<close> with 3 additions and 2
  deletions none of rules 1 to 5 fires, and the orchestrator returns three generic
  candidates: feat, fix and refactor.
\<close>

theorem orchestrator_three_generic_counterexample:
  "CommitGen_getFallbackSuggestions
      \<lparr> filesChanged = [js ''src/index.ts''], additions = 3, deletions = 2,
        hasStaged = True, hasUnstaged = False, diff = [] \<rparr>
   = [\<lparr> type = js ''feat'', scope = None, subject = js ''add feature'',
        body = None, breaking = None \<rparr>,
      \<lparr> type = js ''fix'', scope = None, subject = js ''fix issue'',
        body = None, breaking = None \<rparr>,
      \<lparr> type = js ''refactor'', scope = None, subject = js ''refactor code'',
        body = None, breaking = None \<rparr>]"
  by (simp add: CommitGen_getFallbackSuggestions_def CommitGen_suggestions_def slice_def Let_def
        msg_def hasTests_def hasDocs_def hasConfig_def js_def)

text \<open>
  Claim C5, amended. For every analysis on which none of rules 1 to 5 fires, the
  provider returns exactly one generic feat candidate, with the subject \<open>update\<close> followed
  by \<open>inferScope(filesChanged)\<close> and no scope, and the orchestrator returns exactly the
  three generic candidates feat \<open>add feature\<close>, fix \<open>fix issue\<close> and refactor
  \<open>refactor code\<close>.
\<close>

theorem no_rule_generic_candidates:
  assumes "rule_types a = []"
  shows "VercelGoogleProvider_getFallbackSuggestions inferScope inferFeatureType a
           = [\<lparr> type = js ''feat'', scope = None,
                subject = js ''update '' @ inferScope (filesChanged a),
                body = None, breaking = None \<rparr>]
       \<and> CommitGen_getFallbackSuggestions a
           = [\<lparr> type = js ''feat'', scope = None, subject = js ''add feature'',
                body = None, breaking = None \<rparr>,
              \<lparr> type = js ''fix'', scope = None, subject = js ''fix issue'',
                body = None, breaking = None \<rparr>,
              \<lparr> type = js ''refactor'', scope = None, subject = js ''refactor code'',
                body = None, breaking = None \<rparr>]"
proof -
  from assms have none:
    "\<not> (additions a > deletions a * 2 \<and> additions a > 20)"
    "\<not> (deletions a > additions a * 2 \<and> deletions a > 20)"
    "\<not> hasTests (filesChanged a)" "\<not> hasDocs (filesChanged a)" "\<not> hasConfig (filesChanged a)"
    by (simp_all add: rule_types_Nil)
  from none show ?thesis
    by (simp add: CommitGen_slice_id CommitGen_suggestions_def
          VercelGoogleProvider_getFallbackSuggestions_def Let_def msg_def)
qed

theorem no_rule_generic_candidates_witness:
  "VercelGoogleProvider_getFallbackSuggestions (\<lambda>files. js ''core'') (\<lambda>files. js ''feature'')
      \<lparr> filesChanged = [js ''src/main.ts''], additions = 7, deletions = 4,
        hasStaged = True, hasUnstaged = False, diff = [] \<rparr>
   = [\<lparr> type = js ''feat'', scope = None, subject = js ''update core'',
        body = None, breaking = None \<rparr>]"
proof -
  let ?a = "\<lparr> filesChanged = [js ''src/main.ts''], additions = 7, deletions = 4,
        hasStaged = True, hasUnstaged = False, diff = [] \<rparr>"
  have h: "rule_types ?a = []"
    by (simp add: rule_types_def hasTests_def hasDocs_def hasConfig_def js_def)
  from no_rule_generic_candidates [OF h, of "\<lambda>files. js ''core''" "\<lambda>files. js ''feature''"]
  show ?thesis by (simp add: js_def)
qed


section \<open>Change Analyzer: trimming and \<open>hasStaged\<close>\<close>

lemma dropWhile_all_space:
  "(\<forall>c \<in> set (dropWhile isSpace s). isSpace c) \<longleftrightarrow> (\<forall>c \<in> set s. isSpace c)"
  by (induction s) auto

lemma trim_Nil_iff: "trim s = [] \<longleftrightarrow> list_all isSpace s"
proof -
  have "trim s = [] \<longleftrightarrow> (\<forall>c \<in> set (dropWhile isSpace s). isSpace c)"
    by (simp add: trim_def)
  then show ?thesis by (simp add: dropWhile_all_space list_all_iff)
qed

lemma trim_suffix: "trim s @ rev (takeWhile isSpace (rev (dropWhile isSpace s))) = dropWhile isSpace s"
proof -
  let ?r = "rev (dropWhile isSpace s)"
  have "rev (dropWhile isSpace ?r) @ rev (takeWhile isSpace ?r)
      = rev (takeWhile isSpace ?r @ dropWhile isSpace ?r)"
    by (simp only: rev_append)
  also have "\<dots> = rev ?r" by (simp only: takeWhile_dropWhile_id)
  also have "\<dots> = dropWhile isSpace s" by (simp only: rev_rev_ident)
  finally show ?thesis unfolding trim_def .
qed

text \<open>\<open>trim s\<close> is \<open>s\<close> without a whitespace prefix and a whitespace suffix.\<close>

lemma trim_decomposition:
  "\<exists>a b. s = a @ trim s @ b \<and> list_all isSpace a \<and> list_all isSpace b"
proof -
  let ?a = "takeWhile isSpace s"
  let ?b = "rev (takeWhile isSpace (rev (dropWhile isSpace s)))"
  have "s = ?a @ dropWhile isSpace s" by (simp only: takeWhile_dropWhile_id)
  then have s: "s = ?a @ trim s @ ?b" by (simp only: trim_suffix)
  have a: "list_all isSpace ?a"
    by (auto simp: list_all_iff dest: set_takeWhileD)
  have b: "list_all isSpace ?b"
    by (auto simp: list_all_iff dest: set_takeWhileD)
  from s a b show ?thesis by blast
qed

text \<open>What is left neither begins nor ends with whitespace.\<close>

lemma trim_ends:
  assumes "trim s \<noteq> []"
  shows "\<not> isSpace (hd (trim s)) \<and> \<not> isSpace (last (trim s))"
proof -
  let ?t = "dropWhile isSpace s"
  let ?u = "dropWhile isSpace (rev ?t)"
  from assms have u: "?u \<noteq> []" by (simp only: trim_def rev_is_Nil_conv not_False_eq_True)
  then have "\<not> isSpace (hd ?u)" by (rule hd_dropWhile)
  moreover from u have "last (trim s) = hd ?u" by (simp only: trim_def last_rev)
  ultimately have l: "\<not> isSpace (last (trim s))" by simp
  have t: "?t \<noteq> []"
  proof
    assume "?t = []"
    then have "trim s = []" by (simp only: trim_def rev.simps dropWhile.simps)
    with assms show False by simp
  qed
  then have h: "\<not> isSpace (hd ?t)" by (rule hd_dropWhile)
  have "hd (trim s @ rev (takeWhile isSpace (rev ?t))) = hd (trim s)"
    using assms by (rule hd_append2)
  then have "hd ?t = hd (trim s)" by (simp only: trim_suffix)
  with h l show ?thesis by simp
qed

text \<open>
  Claim C8. For every stat output \<open>raw\<close> of \<open>git diff --cached --stat\<close>, \<open>hasStaged\<close> is
  true if and only if \<open>raw\<close> is not empty after trimming, that is, if and only if \<open>raw\<close>
  holds a code unit that is not whitespace; a stat output of whitespace only gives
  \<open>hasStaged = false\<close>.
\<close>

theorem hasStaged_iff_nonempty_after_trim:
  "hasStaged (analyzeChanges (Inr raw) tracked_out diff_out) = (trim raw \<noteq> [])
   \<and> hasStaged (analyzeChanges (Inr raw) tracked_out diff_out) = list_ex (\<lambda>c. \<not> isSpace c) raw
   \<and> (list_all isSpace raw \<longrightarrow> \<not> hasStaged (analyzeChanges (Inr raw) tracked_out diff_out))"
proof -
  have a: "hasStaged (analyzeChanges (Inr raw) tracked_out diff_out) = (trim raw \<noteq> [])"
    by (simp add: analyzeChanges_def analyzeChanges_body_def exec_def Let_def)
  have b: "(trim raw \<noteq> []) = list_ex (\<lambda>c. \<not> isSpace c) raw"
    by (simp add: trim_Nil_iff list_all_iff list_ex_iff)
  have c: "list_all isSpace raw \<longrightarrow> \<not> hasStaged (analyzeChanges (Inr raw) tracked_out diff_out)"
    unfolding a by (simp add: trim_Nil_iff)
  from a b c show ?thesis by simp
qed

theorem hasStaged_iff_nonempty_after_trim_witness:
  "\<not> hasStaged (analyzeChanges (Inr (js '' \<newline>  '')) (Inr []) (Inr []))
   \<and> hasStaged (analyzeChanges (Inr (js '' a.ts | 2 +-\<newline>'')) (Inr []) (Inr []))"
proof -
  have h: "list_all isSpace (js '' \<newline>  '')"
    by (simp add: js_def isSpace_def isLineTerminator_def)
  have t: "trim (js '' a.ts | 2 +-\<newline>'') \<noteq> []"
    by (simp add: trim_def js_def isSpace_def isLineTerminator_def)
  from hasStaged_iff_nonempty_after_trim [of "js '' \<newline>  ''" "Inr []" "Inr []"] h
  have w1: "\<not> hasStaged (analyzeChanges (Inr (js '' \<newline>  '')) (Inr []) (Inr []))"
    by blast
  from hasStaged_iff_nonempty_after_trim [of "js '' a.ts | 2 +-\<newline>''" "Inr []" "Inr []"] t
  have w2: "hasStaged (analyzeChanges (Inr (js '' a.ts | 2 +-\<newline>'')) (Inr []) (Inr []))"
    by blast
  from w1 w2 show ?thesis by blast
qed

text \<open>When the command fails, \<open>exec\<close> returns the empty string and nothing is staged.\<close>

lemma hasStaged_exec_failed:
  "\<not> hasStaged (analyzeChanges (Inl e) tracked_out diff_out)"
  by (simp add: analyzeChanges_def analyzeChanges_body_def exec_def Let_def)

text \<open>
  Claim C10. For every pair of stat and diff texts, a \<open>filesChanged\<close> that is not empty
  implies \<open>hasStaged = true\<close>: for the values of the local constants, and for the whole
  method with the outcomes of its git commands.
\<close>

theorem filesChanged_nonempty_implies_hasStaged:
  "(filesChanged (analyzeChanges_body staged unstaged d) \<noteq> []
      \<longrightarrow> hasStaged (analyzeChanges_body staged unstaged d))
   \<and> (filesChanged (analyzeChanges stat_out tracked_out diff_out) \<noteq> []
      \<longrightarrow> hasStaged (analyzeChanges stat_out tracked_out diff_out))"
  by (simp add: analyzeChanges_def analyzeChanges_body_def extract_files_def Let_def)

theorem filesChanged_nonempty_implies_hasStaged_witness:
  "filesChanged (analyzeChanges (Inr (js '' a.ts | 2 +-\<newline> 1 file changed\<newline>'')) (Inr []) (Inr []))
     = [js ''a.ts'']
   \<and> hasStaged (analyzeChanges (Inr (js '' a.ts | 2 +-\<newline> 1 file changed\<newline>'')) (Inr []) (Inr []))"
proof -
  have f: "filesChanged (analyzeChanges (Inr (js '' a.ts | 2 +-\<newline> 1 file changed\<newline>'')) (Inr []) (Inr []))
     = [js ''a.ts'']"
    by (simp add: analyzeChanges_def analyzeChanges_body_def exec_def trim_def extract_files_def
          push_match_def Let_def js_def isSpace_def isLineTerminator_def)
  with filesChanged_nonempty_implies_hasStaged [of "[]" "[]" "[]" "Inr (js '' a.ts | 2 +-\<newline> 1 file changed\<newline>'')" "Inr []" "Inr []"]
  show ?thesis by simp
qed


section \<open>Change Analyzer: empty and malformed input\<close>

text \<open>A stat line that matches the pattern holds a \<open>|\<close> (code unit 0x7C).\<close>

lemma split_nl_not_Nil: "split_nl s \<noteq> []"
  by (induction s) (auto split: list.splits)

lemma blanks_bar_has_bar: "blanks_bar s \<Longrightarrow> 0x007C \<in> set s"
proof -
  assume "blanks_bar s"
  then have "run_then_bar s" by (simp only: blanks_bar_run)
  then obtain r where "dropWhile isSpace s = 0x007C # r"
    by (cases "dropWhile isSpace s") (simp_all add: run_then_bar_def)
  then have "0x007C \<in> set (dropWhile isSpace s)" by simp
  then show ?thesis by (rule set_dropWhileD)
qed

lemma lazy_dot_has_bar: "lazy_dot acc s = Some p \<Longrightarrow> 0x007C \<in> set s"
proof (induction s arbitrary: acc)
  case Nil
  then show ?case by simp
next
  case (Cons c cs)
  show ?case
  proof (cases "blanks_bar (c # cs)")
    case True
    then show ?thesis by (rule blanks_bar_has_bar)
  next
    case False
    with Cons.prems have "lazy_dot (acc @ [c]) cs = Some p"
      by (simp split: if_splits)
    then have "0x007C \<in> set cs" by (rule Cons.IH)
    then show ?thesis by simp
  qed
qed

lemma capture_has_bar: "capture s = Some p \<Longrightarrow> 0x007C \<in> set s"
  by (cases s) (auto split: if_splits dest: lazy_dot_has_bar)

lemma match_stat_line_has_bar: "match_stat_line s = Some p \<Longrightarrow> 0x007C \<in> set s"
proof (induction s arbitrary: p)
  case Nil
  then show ?case by simp
next
  case (Cons c cs)
  show ?case
  proof (cases "isSpace c \<and> match_stat_line cs \<noteq> None")
    case True
    then obtain q where "match_stat_line cs = Some q" by auto
    then have "0x007C \<in> set cs" by (rule Cons.IH)
    then show ?thesis by simp
  next
    case False
    with Cons.prems have "capture (c # cs) = Some p"
      by (auto simp del: capture.simps split: if_splits option.splits)
    then show ?thesis by (rule capture_has_bar)
  qed
qed

lemma split_nl_units: "\<Union>(set ` set (split_nl s)) \<subseteq> set s"
proof (induction s)
  case Nil
  show ?case by simp
next
  case (Cons c cs)
  obtain l ls where ls: "split_nl cs = l # ls"
    by (cases "split_nl cs") (auto dest: arg_cong [where f = length] simp: split_nl_not_Nil)
  from Cons ls have ih: "set l \<subseteq> set cs" "\<Union>(set ` set ls) \<subseteq> set cs" by simp_all
  show ?case
  proof (cases "c = 0x000A")
    case True
    with ls ih show ?thesis by auto
  next
    case False
    with ls have "split_nl (c # cs) = (c # l) # ls" by simp
    with ih show ?thesis by auto
  qed
qed

lemma split_nl_subset: "l \<in> set (split_nl s) \<Longrightarrow> set l \<subseteq> set s"
  using split_nl_units [of s] by blast

lemma extract_files_no_bar: "0x007C \<notin> set staged \<Longrightarrow> extract_files staged = []"
proof -
  assume nb: "0x007C \<notin> set staged"
  have "match_stat_line l = None" if "l \<in> set (split_nl staged)" for l
  proof (cases "match_stat_line l")
    case None
    then show ?thesis .
  next
    case (Some p)
    then have "0x007C \<in> set l" by (rule match_stat_line_has_bar)
    with split_nl_subset [OF that] nb show ?thesis by auto
  qed
  then have "List.map_filter match_stat_line (split_nl staged) = []"
    by (auto simp: List.map_filter_def filter_empty_conv)
  then show ?thesis by (simp add: extract_files_map_filter)
qed

lemma scan_g_absent: "ch \<notin> set s \<Longrightarrow> scan_g ch b s = []"
  by (induction s arbitrary: b) auto


text \<open>
  The defaults of the analyzer. When all three commands fail the analysis is the default
  one. An empty diff gives 0 additions and 0 deletions, an empty stat text gives an empty
  \<open>filesChanged\<close>; so do a stat text without \<open>|\<close> (0x7C) and a diff without \<open>+\<close> (0x2B),
  respectively without \<open>-\<close> (0x2D). \<open>analyzeChanges\<close> is a total function of the outcomes
  of its commands: the exception of \<open>execSync\<close> and the \<open>null\<close> of a failed match are
  values of the model, handled by \<open>exec\<close>, by \<open>|| []\<close> and by \<open>if (match)\<close> as in the
  source.
\<close>

lemma analyzeChanges_defaults:
  "analyzeChanges (Inl e1) (Inl e2) (Inl e3)
     = \<lparr> filesChanged = [], additions = 0, deletions = 0,
         hasStaged = False, hasUnstaged = False, diff = [] \<rparr>
   \<and> additions (analyzeChanges_body staged unstaged []) = 0
   \<and> deletions (analyzeChanges_body staged unstaged []) = 0
   \<and> filesChanged (analyzeChanges_body [] unstaged d) = []
   \<and> (0x007C \<notin> set staged \<longrightarrow> filesChanged (analyzeChanges_body staged unstaged d) = [])
   \<and> (0x002B \<notin> set d \<longrightarrow> additions (analyzeChanges_body staged unstaged d) = 0)
   \<and> (0x002D \<notin> set d \<longrightarrow> deletions (analyzeChanges_body staged unstaged d) = 0)"
proof -
  have failed: "analyzeChanges (Inl e1) (Inl e2) (Inl e3)
     = \<lparr> filesChanged = [], additions = 0, deletions = 0,
         hasStaged = False, hasUnstaged = False, diff = [] \<rparr>"
    by (simp add: analyzeChanges_def analyzeChanges_body_def exec_def extract_files_def
          match_g_def or_empty_def)
  have empty_diff: "additions (analyzeChanges_body staged unstaged []) = 0"
    "deletions (analyzeChanges_body staged unstaged []) = 0"
    by (simp_all add: analyzeChanges_body_def match_g_def or_empty_def)
  have empty_stat: "filesChanged (analyzeChanges_body [] unstaged d) = []"
    by (simp add: analyzeChanges_body_def extract_files_def)
  have no_bar: "0x007C \<notin> set staged \<longrightarrow> filesChanged (analyzeChanges_body staged unstaged d) = []"
    by (simp add: analyzeChanges_body_def extract_files_no_bar)
  have no_sign: "ch \<notin> set d \<longrightarrow> length (or_empty (match_g ch d)) = 0" for ch
    by (simp add: match_g_def or_empty_def scan_g_absent)
  have no_plus: "0x002B \<notin> set d \<longrightarrow> additions (analyzeChanges_body staged unstaged d) = 0"
    using no_sign [of "0x002B"] by (simp add: analyzeChanges_body_def)
  have no_minus: "0x002D \<notin> set d \<longrightarrow> deletions (analyzeChanges_body staged unstaged d) = 0"
    using no_sign [of "0x002D"] by (simp add: analyzeChanges_body_def)
  from failed empty_diff empty_stat no_bar no_plus no_minus show ?thesis by blast
qed

lemma analyzeChanges_defaults_example:
  "analyzeChanges_body (js ''fatal: not a git repository'') [] (js ''Binary files differ'')
   = \<lparr> filesChanged = [], additions = 0, deletions = 0, hasStaged = True, hasUnstaged = False,
       diff = js ''Binary files differ'' \<rparr>"
proof -
  have h1: "0x007C \<notin> set (js ''fatal: not a git repository'')"
    and h2: "0x002B \<notin> set (js ''Binary files differ'')"
    and h3: "0x002D \<notin> set (js ''Binary files differ'')"
    by (simp_all add: js_def)
  from analyzeChanges_defaults [of ExecFailed ExecFailed ExecFailed "js ''fatal: not a git repository''" "[]"
             "js ''Binary files differ''"] h1 h2 h3
  have "filesChanged (analyzeChanges_body (js ''fatal: not a git repository'') []
            (js ''Binary files differ'')) = []
      \<and> additions (analyzeChanges_body (js ''fatal: not a git repository'') []
            (js ''Binary files differ'')) = 0
      \<and> deletions (analyzeChanges_body (js ''fatal: not a git repository'') []
            (js ''Binary files differ'')) = 0"
    by blast
  then show ?thesis by (simp add: analyzeChanges_body_def js_def)
qed


end
